theory Spec2Isabelle
  imports Main "HOL-Library.Word"
begin

section \<open>Data model\<close>

text \<open>
  The structs \<^verbatim>\<open>Book\<close>, \<^verbatim>\<open>Reader\<close> and \<^verbatim>\<open>Loan\<close> of \<^verbatim>\<open>src/main.cpp\<close> as records.
  A C++ \<^verbatim>\<open>int\<close> is a 32-bit word read as two's complement (\<open>sint\<close>); a
  \<^verbatim>\<open>std::string\<close> is a list of bytes; \<^verbatim>\<open>std::optional<std::string>\<close> is an option.
  The field \<^verbatim>\<open>Reader::Id\<close> is called \<open>Id_r\<close>, since \<open>Id\<close> is the identity relation of HOL.
\<close>

type_synonym cint = "32 word"

record Book =
  Title :: string
  Author :: string
  ISBN :: string
  IsAvailable :: bool

record Reader =
  Id_r :: cint
  Name :: string
  Email :: string

record Loan =
  BookISBN :: string
  ReaderId :: cint
  LoanDate :: string
  ReturnDate :: "string option"

text \<open>The class \<^verbatim>\<open>LibraryManager\<close>: three vectors, in insertion order.\<close>

record LibraryManager =
  Books :: "Book list"
  Readers :: "Reader list"
  Loans :: "Loan list"

definition empty_manager :: LibraryManager where
  "empty_manager = \<lparr>Books = [], Readers = [], Loans = []\<rparr>"

text \<open>\<^verbatim>\<open>Book::MarkAsLoaned\<close> and \<^verbatim>\<open>Book::MarkAsAvailable\<close>.\<close>

definition MarkAsLoaned :: "Book \<Rightarrow> Book" where
  "MarkAsLoaned b = b\<lparr>IsAvailable := False\<rparr>"

definition MarkAsAvailable :: "Book \<Rightarrow> Book" where
  "MarkAsAvailable b = b\<lparr>IsAvailable := True\<rparr>"

section \<open>Vector primitives\<close>

text \<open>
  \<^verbatim>\<open>std::find_if\<close> returns an iterator to the first element that satisfies the
  predicate, or \<^verbatim>\<open>end()\<close>. The iterator is modelled by the index of that element,
  \<^verbatim>\<open>end()\<close> by \<open>None\<close>.
\<close>

fun find_if :: "('a \<Rightarrow> bool) \<Rightarrow> 'a list \<Rightarrow> nat option" where
  "find_if P [] = None"
| "find_if P (x # xs) = (if P x then Some 0 else map_option Suc (find_if P xs))"

text \<open>\<^verbatim>\<open>vector::erase(it)\<close>: the element at the index is removed, the rest keeps its order.\<close>

definition erase_at :: "nat \<Rightarrow> 'a list \<Rightarrow> 'a list" where
  "erase_at i xs = take i xs @ drop (Suc i) xs"

section \<open>Lookups\<close>

text \<open>
  \<^verbatim>\<open>FindBook\<close> and \<^verbatim>\<open>FindReader\<close> return a pointer into the vector, or
  \<^verbatim>\<open>nullptr\<close>: here the index of the entry, or \<open>None\<close>.
\<close>

definition FindBook :: "string \<Rightarrow> LibraryManager \<Rightarrow> nat option" where
  "FindBook isbn m = find_if (\<lambda>b. ISBN b = isbn) (Books m)"

definition FindReader :: "cint \<Rightarrow> LibraryManager \<Rightarrow> nat option" where
  "FindReader rid m = find_if (\<lambda>r. Id_r r = rid) (Readers m)"

section \<open>Operations on books and readers\<close>

text \<open>Every operation returns its \<^verbatim>\<open>bool\<close> result and the manager after the call.\<close>

definition AddBook :: "Book \<Rightarrow> LibraryManager \<Rightarrow> bool \<times> LibraryManager" where
  "AddBook b m =
     (if FindBook (ISBN b) m \<noteq> None then (False, m)
      else (True, m\<lparr>Books := Books m @ [b]\<rparr>))"

definition RemoveBook :: "string \<Rightarrow> LibraryManager \<Rightarrow> bool \<times> LibraryManager" where
  "RemoveBook isbn m =
     (case find_if (\<lambda>x. ISBN x = isbn) (Books m) of
        None \<Rightarrow> (False, m)
      | Some i \<Rightarrow>
          if \<not> IsAvailable (Books m ! i) then (False, m)
          else (True, m\<lparr>Books := erase_at i (Books m)\<rparr>))"

text \<open>
  \<^verbatim>\<open>NextReaderId\<close>: the loop keeps the largest Id seen, starting from 0, with the signed
  comparison of \<^verbatim>\<open>int\<close>. The final \<^verbatim>\<open>maxId + 1\<close> overflows when \<^verbatim>\<open>maxId\<close> is
  \<^verbatim>\<open>INT_MAX\<close>, which is undefined behaviour in C++: the model returns \<open>None\<close> there.
\<close>

fun max_id_loop :: "cint \<Rightarrow> Reader list \<Rightarrow> cint" where
  "max_id_loop maxId [] = maxId"
| "max_id_loop maxId (r # rs) =
     max_id_loop (if sint maxId < sint (Id_r r) then Id_r r else maxId) rs"

definition NextReaderId :: "LibraryManager \<Rightarrow> cint option" where
  "NextReaderId m =
     (let maxId = max_id_loop 0 (Readers m)
      in if sint maxId = 2147483647 then None else Some (maxId + 1))"

definition AddReader :: "Reader \<Rightarrow> LibraryManager \<Rightarrow> bool \<times> LibraryManager" where
  "AddReader r m =
     (if list_ex (\<lambda>x. Id_r x = Id_r r) (Readers m) then (False, m)
      else (True, m\<lparr>Readers := Readers m @ [r]\<rparr>))"

text \<open>
  The loop of \<^verbatim>\<open>RemoveReader\<close> walks the loans once and erases each one that belongs
  to the reader and has no return date.
\<close>

fun erase_active_loans :: "cint \<Rightarrow> Loan list \<Rightarrow> Loan list" where
  "erase_active_loans rid [] = []"
| "erase_active_loans rid (l # ls) =
     (if ReaderId l = rid \<and> ReturnDate l = None then erase_active_loans rid ls
      else l # erase_active_loans rid ls)"

definition RemoveReader :: "cint \<Rightarrow> LibraryManager \<Rightarrow> bool \<times> LibraryManager" where
  "RemoveReader rid m =
     (case find_if (\<lambda>x. Id_r x = rid) (Readers m) of
        None \<Rightarrow> (False, m)
      | Some i \<Rightarrow>
          (True, m\<lparr>Loans := erase_active_loans rid (Loans m),
                    Readers := erase_at i (Readers m)\<rparr>))"

section \<open>Loans\<close>

text \<open>
  The clock \<^verbatim>\<open>now_iso()\<close> is a parameter: the string it returns at the call.
  \<^verbatim>\<open>IssueLoan\<close> pushes the loan and then marks the book through the pointer
  \<^verbatim>\<open>FindBook\<close> returned; \<^verbatim>\<open>ReturnBook\<close> closes the first active loan of the pair
  and marks the book when \<^verbatim>\<open>FindBook\<close> finds one.
\<close>

definition IssueLoan :: "string \<Rightarrow> string \<Rightarrow> cint \<Rightarrow> LibraryManager \<Rightarrow> bool \<times> LibraryManager" where
  "IssueLoan now isbn readerId m =
     (case FindBook isbn m of
        None \<Rightarrow> (False, m)
      | Some i \<Rightarrow>
          if \<not> IsAvailable (Books m ! i) then (False, m)
          else if FindReader readerId m = None then (False, m)
          else (True,
                m\<lparr>Loans := Loans m @
                       [\<lparr>BookISBN = isbn, ReaderId = readerId, LoanDate = now, ReturnDate = None\<rparr>],
                  Books := (Books m)[i := MarkAsLoaned (Books m ! i)]\<rparr>))"

definition ReturnBook :: "string \<Rightarrow> string \<Rightarrow> cint \<Rightarrow> LibraryManager \<Rightarrow> bool \<times> LibraryManager" where
  "ReturnBook now isbn readerId m =
     (case find_if (\<lambda>l. BookISBN l = isbn \<and> ReaderId l = readerId \<and> ReturnDate l = None) (Loans m) of
        None \<Rightarrow> (False, m)
      | Some k \<Rightarrow>
          (let m1 = m\<lparr>Loans := (Loans m)[k := (Loans m ! k)\<lparr>ReturnDate := Some now\<rparr>]\<rparr>
           in case FindBook isbn m1 of
                None \<Rightarrow> (True, m1)
              | Some i \<Rightarrow> (True, m1\<lparr>Books := (Books m1)[i := MarkAsAvailable (Books m1 ! i)]\<rparr>)))"

section \<open>Persistence\<close>

text \<open>
  The JSON library (\<^verbatim>\<open>json.hpp\<close>, nlohmann::json) is not part of the manager; its
  values are modelled by a datatype. Numbers are integers here: no field of the three
  structs is a floating-point number. An object is the list of its members, looked up
  by key.
\<close>

datatype json =
    JNull
  | JBool bool
  | JNumber int
  | JString string
  | JArray "json list"
  | JObject "(string \<times> json) list"

text \<open>
  What can go wrong while loading: an exception of the library (a parse error or a type
  error), which \<^verbatim>\<open>catch (...)\<close> catches, and the failed assertion of the
  \<^verbatim>\<open>const\<close> subscript on a missing key, which nothing catches.
\<close>

datatype error = JsonException | AssertionFailure

definition bind_result :: "error + 'a \<Rightarrow> ('a \<Rightarrow> error + 'b) \<Rightarrow> error + 'b" where
  "bind_result r f = (case r of Inl e \<Rightarrow> Inl e | Inr x \<Rightarrow> f x)"

text \<open>
  \<^verbatim>\<open>j.value(key, default)\<close> as the library documents it: a type error when \<^verbatim>\<open>j\<close> is
  not an object, the default when the key is missing, the member converted to the type
  of the default otherwise, with a type error when the member has another type. The
  conversion to \<^verbatim>\<open>int\<close> accepts numbers and booleans and casts to 32 bits.
\<close>

definition value_string :: "json \<Rightarrow> string \<Rightarrow> string \<Rightarrow> error + string" where
  "value_string j key dflt =
     (case j of
        JObject kvs \<Rightarrow>
          (case map_of kvs key of
             None \<Rightarrow> Inr dflt
           | Some v \<Rightarrow> (case v of JString s \<Rightarrow> Inr s | _ \<Rightarrow> Inl JsonException))
      | _ \<Rightarrow> Inl JsonException)"

definition value_bool :: "json \<Rightarrow> string \<Rightarrow> bool \<Rightarrow> error + bool" where
  "value_bool j key dflt =
     (case j of
        JObject kvs \<Rightarrow>
          (case map_of kvs key of
             None \<Rightarrow> Inr dflt
           | Some v \<Rightarrow> (case v of JBool b \<Rightarrow> Inr b | _ \<Rightarrow> Inl JsonException))
      | _ \<Rightarrow> Inl JsonException)"

definition value_int :: "json \<Rightarrow> string \<Rightarrow> cint \<Rightarrow> error + cint" where
  "value_int j key dflt =
     (case j of
        JObject kvs \<Rightarrow>
          (case map_of kvs key of
             None \<Rightarrow> Inr dflt
           | Some v \<Rightarrow>
               (case v of
                  JNumber n \<Rightarrow> Inr (word_of_int n)
                | JBool b \<Rightarrow> Inr (if b then 1 else 0)
                | _ \<Rightarrow> Inl JsonException))
      | _ \<Rightarrow> Inl JsonException)"

text \<open>
  \<^verbatim>\<open>j[key]\<close> on a \<^verbatim>\<open>const json &\<close>: a type error when \<^verbatim>\<open>j\<close> is not an object, and
  an assertion that the key is there.
\<close>

definition subscript_const :: "json \<Rightarrow> string \<Rightarrow> error + json" where
  "subscript_const j key =
     (case j of
        JObject kvs \<Rightarrow>
          (case map_of kvs key of None \<Rightarrow> Inl AssertionFailure | Some v \<Rightarrow> Inr v)
      | _ \<Rightarrow> Inl JsonException)"

text \<open>
  The range-based \<^verbatim>\<open>for\<close> over a JSON value visits the elements of an array, the
  member values of an object, nothing for \<^verbatim>\<open>null\<close>, and the value itself otherwise.
\<close>

definition json_items :: "json \<Rightarrow> json list" where
  "json_items j =
     (case j of
        JArray xs \<Rightarrow> xs
      | JObject kvs \<Rightarrow> map snd kvs
      | JNull \<Rightarrow> []
      | _ \<Rightarrow> [j])"

subsection \<open>\<^verbatim>\<open>to_json\<close> and \<^verbatim>\<open>from_json\<close> of the three structs\<close>

definition Book_to_json :: "Book \<Rightarrow> json" where
  "Book_to_json b =
     JObject [(''Title'', JString (Title b)), (''Author'', JString (Author b)),
              (''ISBN'', JString (ISBN b)), (''IsAvailable'', JBool (IsAvailable b))]"

definition Book_from_json :: "json \<Rightarrow> error + Book" where
  "Book_from_json j =
     bind_result (value_string j ''Title'' []) (\<lambda>t.
     bind_result (value_string j ''Author'' []) (\<lambda>a.
     bind_result (value_string j ''ISBN'' []) (\<lambda>i.
     bind_result (value_bool j ''IsAvailable'' True) (\<lambda>v.
     Inr \<lparr>Title = t, Author = a, ISBN = i, IsAvailable = v\<rparr>))))"

definition Reader_to_json :: "Reader \<Rightarrow> json" where
  "Reader_to_json r =
     JObject [(''Id'', JNumber (sint (Id_r r))), (''Name'', JString (Name r)),
              (''Email'', JString (Email r))]"

definition Reader_from_json :: "json \<Rightarrow> error + Reader" where
  "Reader_from_json j =
     bind_result (value_int j ''Id'' 0) (\<lambda>i.
     bind_result (value_string j ''Name'' []) (\<lambda>n.
     bind_result (value_string j ''Email'' []) (\<lambda>e.
     Inr \<lparr>Id_r = i, Name = n, Email = e\<rparr>)))"

definition Loan_to_json :: "Loan \<Rightarrow> json" where
  "Loan_to_json l =
     JObject ([(''BookISBN'', JString (BookISBN l)), (''ReaderId'', JNumber (sint (ReaderId l))),
               (''LoanDate'', JString (LoanDate l))] @
              [(''ReturnDate'', (case ReturnDate l of Some d \<Rightarrow> JString d | None \<Rightarrow> JNull))])"

definition Loan_from_json :: "json \<Rightarrow> error + Loan" where
  "Loan_from_json j =
     bind_result (value_string j ''BookISBN'' []) (\<lambda>b.
     bind_result (value_int j ''ReaderId'' 0) (\<lambda>r.
     bind_result (value_string j ''LoanDate'' []) (\<lambda>d.
     bind_result (subscript_const j ''ReturnDate'') (\<lambda>rd.
     if rd \<noteq> JNull
     then bind_result (value_string j ''ReturnDate'' []) (\<lambda>x.
            Inr \<lparr>BookISBN = b, ReaderId = r, LoanDate = d, ReturnDate = Some x\<rparr>)
     else Inr \<lparr>BookISBN = b, ReaderId = r, LoanDate = d, ReturnDate = None\<rparr>))))"

subsection \<open>Files, \<^verbatim>\<open>Save\<close> and \<^verbatim>\<open>Load\<close>\<close>

text \<open>
  A destination is a file that cannot be opened, a file whose text is not JSON, or a
  file holding a JSON document. Writing a document and parsing it back gives the same
  value: the text between \<^verbatim>\<open>dump\<close> and the parser is not modelled.
\<close>

datatype destination = NoFile | Unparsable | Document json

text \<open>
  \<^verbatim>\<open>std::ofstream(name) << text\<close> writes nothing, and reports nothing, when the stream
  could not be opened; the flag says whether it could.
\<close>

definition write_file :: "bool \<Rightarrow> json \<Rightarrow> destination \<Rightarrow> destination" where
  "write_file opened j old = (if opened then Document j else old)"

definition Save :: "bool \<times> bool \<times> bool \<Rightarrow> LibraryManager \<Rightarrow> destination \<times> destination \<times> destination \<Rightarrow> destination \<times> destination \<times> destination" where
  "Save opened m old =
     (case (opened, old) of
        ((o1, o2, o3), (f1, f2, f3)) \<Rightarrow>
          (write_file o1 (JArray (map Book_to_json (Books m))) f1,
           write_file o2 (JArray (map Reader_to_json (Readers m))) f2,
           write_file o3 (JArray (map Loan_to_json (Loans m))) f3))"

text \<open>
  One loop of \<^verbatim>\<open>Load\<close>: each element is converted and pushed in turn, so what was
  pushed before an exception stays in the vector.
\<close>

fun push_all :: "(json \<Rightarrow> error + 'a) \<Rightarrow> json list \<Rightarrow> 'a list \<Rightarrow> 'a list \<times> error option" where
  "push_all conv [] acc = (acc, None)"
| "push_all conv (x # xs) acc =
     (case conv x of
        Inl e \<Rightarrow> (acc, Some e)
      | Inr v \<Rightarrow> push_all conv xs (acc @ [v]))"

definition read_into :: "(json \<Rightarrow> error + 'a) \<Rightarrow> destination \<Rightarrow> 'a list \<Rightarrow> 'a list \<times> error option" where
  "read_into conv f acc =
     (case f of
        NoFile \<Rightarrow> (acc, None)
      | Unparsable \<Rightarrow> (acc, Some JsonException)
      | Document j \<Rightarrow> push_all conv (json_items j) acc)"

text \<open>
  The handler \<^verbatim>\<open>catch (...) { }\<close> is empty: after a library exception \<^verbatim>\<open>Load\<close>
  returns with the manager as it is at that point. A failed assertion ends the process.
\<close>

definition catch_all :: "error \<Rightarrow> LibraryManager \<Rightarrow> error + LibraryManager" where
  "catch_all e m = (case e of JsonException \<Rightarrow> Inr m | AssertionFailure \<Rightarrow> Inl AssertionFailure)"

definition Load :: "destination \<Rightarrow> destination \<Rightarrow> destination \<Rightarrow> LibraryManager \<Rightarrow> error + LibraryManager" where
  "Load booksFile readersFile loansFile m =
     (let m0 = m\<lparr>Books := [], Readers := [], Loans := []\<rparr>
      in case read_into Book_from_json booksFile (Books m0) of
           (bs, Some e) \<Rightarrow> catch_all e (m0\<lparr>Books := bs\<rparr>)
         | (bs, None) \<Rightarrow>
             (let m1 = m0\<lparr>Books := bs\<rparr>
              in case read_into Reader_from_json readersFile (Readers m1) of
                   (rs, Some e) \<Rightarrow> catch_all e (m1\<lparr>Readers := rs\<rparr>)
                 | (rs, None) \<Rightarrow>
                     (let m2 = m1\<lparr>Readers := rs\<rparr>
                      in case read_into Loan_from_json loansFile (Loans m2) of
                           (ls, Some e) \<Rightarrow> catch_all e (m2\<lparr>Loans := ls\<rparr>)
                         | (ls, None) \<Rightarrow> Inr (m2\<lparr>Loans := ls\<rparr>))))"

section \<open>Sample data\<close>

text \<open>The book and the reader of the scenario in the specification, and a second book
  with the same ISBN.\<close>

definition dune :: Book where
  "dune = \<lparr>Title = ''Dune'', Author = ''Herbert'', ISBN = ''111'', IsAvailable = True\<rparr>"

definition emma :: Book where
  "emma = \<lparr>Title = ''Emma'', Author = ''Austen'', ISBN = ''111'', IsAvailable = True\<rparr>"

definition alice :: Reader where
  "alice = \<lparr>Id_r = 1, Name = ''Alice'', Email = ''alice@example.org''\<rparr>"

section \<open>Measures used in the statements\<close>

text \<open>The loan records of one ISBN that carry a return date (the history of the book).\<close>

definition returned_for :: "string \<Rightarrow> Loan list \<Rightarrow> Loan list" where
  "returned_for isbn ls = filter (\<lambda>l. BookISBN l = isbn \<and> ReturnDate l \<noteq> None) ls"

text \<open>A run of \<^verbatim>\<open>AddBook\<close> calls, the results ignored as the menu ignores them.\<close>

fun AddBooks :: "Book list \<Rightarrow> LibraryManager \<Rightarrow> LibraryManager" where
  "AddBooks [] m = m"
| "AddBooks (b # bs) m = AddBooks bs (snd (AddBook b m))"

text \<open>
  The invariant of the specification: a book is available exactly when no loan of its
  ISBN is without a return date.
\<close>

definition has_active_loan :: "string \<Rightarrow> LibraryManager \<Rightarrow> bool" where
  "has_active_loan isbn m = list_ex (\<lambda>l. BookISBN l = isbn \<and> ReturnDate l = None) (Loans m)"

definition availability_in_sync :: "LibraryManager \<Rightarrow> bool" where
  "availability_in_sync m =
     list_all (\<lambda>b. IsAvailable b = (\<not> has_active_loan (ISBN b) m)) (Books m)"

section \<open>Sessions\<close>

text \<open>
  The six operations that change the manager, as commands: each carries the arguments
  of the call (and the clock's answer, for the two that read the clock). A session is a
  list of commands, run in order from a given manager; a call that returns
  \<^verbatim>\<open>false\<close> leaves the manager as it was and the session goes on, as in the menu loop
  of \<^verbatim>\<open>main\<close>.
\<close>

datatype command =
    CmdAddBook Book
  | CmdRemoveBook string
  | CmdAddReader Reader
  | CmdRemoveReader cint
  | CmdIssueLoan string string cint
  | CmdReturnBook string string cint

fun step :: "command \<Rightarrow> LibraryManager \<Rightarrow> LibraryManager" where
  "step (CmdAddBook b) m = snd (AddBook b m)"
| "step (CmdRemoveBook isbn) m = snd (RemoveBook isbn m)"
| "step (CmdAddReader r) m = snd (AddReader r m)"
| "step (CmdRemoveReader rid) m = snd (RemoveReader rid m)"
| "step (CmdIssueLoan now isbn rid) m = snd (IssueLoan now isbn rid m)"
| "step (CmdReturnBook now isbn rid) m = snd (ReturnBook now isbn rid m)"

fun run :: "command list \<Rightarrow> LibraryManager \<Rightarrow> LibraryManager" where
  "run [] m = m"
| "run (c # cs) m = run cs (step c m)"

text \<open>
  The commands that keep the invariant: every one but \<^verbatim>\<open>RemoveReader\<close>, where
  \<^verbatim>\<open>AddBook\<close> is given a book that is available, as a default-constructed one is.
\<close>

fun no_cascade :: "command \<Rightarrow> bool" where
  "no_cascade (CmdAddBook b) = IsAvailable b"
| "no_cascade (CmdRemoveReader rid) = False"
| "no_cascade c = True"

text \<open>
  The invariant that the proof carries along: ISBNs are distinct, an ISBN has at most one
  active loan, every active loan has its book, and a book is available exactly when its
  ISBN has no active loan.
\<close>

definition active_loans :: "string \<Rightarrow> LibraryManager \<Rightarrow> Loan list" where
  "active_loans isbn m = filter (\<lambda>l. BookISBN l = isbn \<and> ReturnDate l = None) (Loans m)"

definition consistent :: "LibraryManager \<Rightarrow> bool" where
  "consistent m \<longleftrightarrow>
     distinct (map ISBN (Books m)) \<and>
     (\<forall>x. length (active_loans x m) \<le> 1) \<and>
     (\<forall>x. active_loans x m \<noteq> [] \<longrightarrow> x \<in> ISBN ` set (Books m)) \<and>
     (\<forall>b \<in> set (Books m). IsAvailable b \<longleftrightarrow> active_loans (ISBN b) m = [])"

section \<open>Sample states\<close>

text \<open>The scenario of the specification up to the loan: one book, one reader, the book lent.\<close>

definition on_loan :: LibraryManager where
  "on_loan = snd (IssueLoan ''2026-01-01T00:00:00Z'' ''111'' 1
               (snd (AddReader alice (snd (AddBook dune empty_manager)))))"

text \<open>The same scenario after the book came back: one returned loan in the history.\<close>

definition with_history :: LibraryManager where
  "with_history = snd (ReturnBook ''2026-01-02T00:00:00Z'' ''111'' 1 on_loan)"

text \<open>Two books with one ISBN, as a books file can hold them.\<close>

definition twins :: LibraryManager where
  "twins = \<lparr>Books = [dune, emma], Readers = [alice], Loans = []\<rparr>"

text \<open>A manager with a returned loan and an active one.\<close>

definition shelf :: LibraryManager where
  "shelf = \<lparr>Books = [dune\<lparr>IsAvailable := False\<rparr>], Readers = [alice],
            Loans = [\<lparr>BookISBN = ''111'', ReaderId = 1, LoanDate = ''2026-01-01T00:00:00Z'',
                      ReturnDate = Some ''2026-01-02T00:00:00Z''\<rparr>,
                     \<lparr>BookISBN = ''111'', ReaderId = 1, LoanDate = ''2026-01-03T00:00:00Z'',
                      ReturnDate = None\<rparr>]\<rparr>"

section \<open>Basic facts about the vector primitives\<close>

lemma find_if_None_iff: "find_if P xs = None \<longleftrightarrow> (\<forall>x \<in> set xs. \<not> P x)"
  by (induction xs) auto

lemma find_if_Some_first:
  "find_if P xs = Some i \<Longrightarrow> i < length xs \<and> P (xs ! i) \<and> (\<forall>j < i. \<not> P (xs ! j))"
proof (induction xs arbitrary: i)
  case Nil
  then show ?case by simp
next
  case (Cons x xs)
  show ?case
  proof (cases "P x")
    case True
    with Cons.prems show ?thesis by simp
  next
    case False
    with Cons.prems obtain k where k: "find_if P xs = Some k" "i = Suc k"
      by auto
    from Cons.IH [OF k(1)] have ih: "k < length xs" "P (xs ! k)" "\<forall>j < k. \<not> P (xs ! j)"
      by simp_all
    have "\<forall>j < Suc k. \<not> P ((x # xs) ! j)"
    proof (intro allI impI)
      fix j assume "j < Suc k"
      then show "\<not> P ((x # xs) ! j)"
        using False ih(3) by (cases j) simp_all
    qed
    with ih k show ?thesis by simp
  qed
qed

lemma length_erase_at: "i < length xs \<Longrightarrow> Suc (length (erase_at i xs)) = length xs"
  by (simp add: erase_at_def)

lemma erase_active_loans_filter:
  "erase_active_loans rid ls = filter (\<lambda>l. \<not> (ReaderId l = rid \<and> ReturnDate l = None)) ls"
  by (induction ls) simp_all

lemma find_if_exists: "\<exists>x \<in> set xs. P x \<Longrightarrow> \<exists>i. find_if P xs = Some i"
  using find_if_None_iff [of P xs] by (cases "find_if P xs") auto

lemma find_if_update_same:
  "(\<And>x. P (f x) = P x) \<Longrightarrow> find_if P (xs[i := f (xs ! i)]) = find_if P xs"
proof (induction xs arbitrary: i)
  case Nil
  then show ?case by simp
next
  case (Cons x xs)
  then show ?case by (cases i) simp_all
qed

lemma filter_update_gain:
  "i < length xs \<Longrightarrow> \<not> Q (xs ! i) \<Longrightarrow> Q y \<Longrightarrow>
   length (filter Q (xs[i := y])) = Suc (length (filter Q xs))"
proof (induction xs arbitrary: i)
  case Nil
  then show ?case by simp
next
  case (Cons x xs)
  then show ?case by (cases i) simp_all
qed

lemma MarkAsAvailable_id: "IsAvailable b \<Longrightarrow> b\<lparr>IsAvailable := True\<rparr> = b"
  by (cases b) simp

lemma IssueLoan_success:
  assumes "fst (IssueLoan now isbn readerId m)"
  obtains i where "FindBook isbn m = Some i" "IsAvailable (Books m ! i)"
    "FindReader readerId m \<noteq> None"
    "snd (IssueLoan now isbn readerId m) =
       m\<lparr>Loans := Loans m @
             [\<lparr>BookISBN = isbn, ReaderId = readerId, LoanDate = now, ReturnDate = None\<rparr>],
         Books := (Books m)[i := MarkAsLoaned (Books m ! i)]\<rparr>"
  using assms by (auto simp: IssueLoan_def split: option.splits if_splits)

lemma FindBook_None_iff: "FindBook isbn m = None \<longleftrightarrow> isbn \<notin> ISBN ` set (Books m)"
  by (auto simp: FindBook_def find_if_None_iff)

lemma FindBook_first:
  "FindBook isbn m = Some i \<Longrightarrow>
   i < length (Books m) \<and> ISBN (Books m ! i) = isbn \<and> (\<forall>j < i. ISBN (Books m ! j) \<noteq> isbn)"
  using find_if_Some_first [of "\<lambda>b. ISBN b = isbn" "Books m" i] by (simp add: FindBook_def)

lemma AddBook_distinct:
  "distinct (map ISBN (Books m)) \<Longrightarrow> distinct (map ISBN (Books (snd (AddBook b m))))"
  by (auto simp: AddBook_def FindBook_None_iff)

lemma AddBooks_distinct:
  "distinct (map ISBN (Books m)) \<Longrightarrow> distinct (map ISBN (Books (AddBooks bs m)))"
  by (induction bs arbitrary: m) (simp_all add: AddBook_distinct)

subsection \<open>Evaluation on sample data\<close>

lemmas ops = AddBook_def AddReader_def IssueLoan_def ReturnBook_def RemoveBook_def RemoveReader_def
  FindBook_def FindReader_def empty_manager_def dune_def alice_def emma_def erase_at_def
  MarkAsLoaned_def MarkAsAvailable_def returned_for_def

lemmas json_ops = Book_from_json_def Book_to_json_def Reader_from_json_def Reader_to_json_def
  Loan_from_json_def Loan_to_json_def value_string_def value_bool_def value_int_def
  subscript_const_def bind_result_def

lemmas load_ops = Load_def read_into_def json_items_def catch_all_def

subsection \<open>The largest Id\<close>

lemma max_id_loop_ge_start: "sint a \<le> sint (max_id_loop a rs)"
proof (induction rs arbitrary: a)
  case Nil
  then show ?case by simp
next
  case (Cons r rs)
  show ?case
  proof (cases "sint a < sint (Id_r r)")
    case True
    with Cons.IH [of "Id_r r"] show ?thesis by simp
  next
    case False
    with Cons.IH [of a] show ?thesis by simp
  qed
qed

lemma max_id_loop_ge_all: "r \<in> set rs \<Longrightarrow> sint (Id_r r) \<le> sint (max_id_loop a rs)"
proof (induction rs arbitrary: a)
  case Nil
  then show ?case by simp
next
  case (Cons x rs)
  show ?case
  proof (cases "r = x")
    case True
    show ?thesis
    proof (cases "sint a < sint (Id_r x)")
      case True
      with \<open>r = x\<close> max_id_loop_ge_start [of "Id_r x" rs] show ?thesis by simp
    next
      case False
      with \<open>r = x\<close> max_id_loop_ge_start [of a rs] show ?thesis by simp
    qed
  next
    case False
    with Cons.prems have "r \<in> set rs" by simp
    from Cons.IH [OF this] show ?thesis by simp
  qed
qed

lemma sint_succ: "sint (w :: cint) \<noteq> 2147483647 \<Longrightarrow> sint (w + 1) = sint w + 1"
proof -
  assume ne: "sint w \<noteq> 2147483647"
  have "sint w < 2 ^ (LENGTH(32) - 1)" by (rule sint_lt)
  then have ub: "sint w < 2147483648" by simp
  have "- (2 ^ (LENGTH(32) - 1)) \<le> sint w" by (rule sint_ge)
  then have lb: "- 2147483648 \<le> sint w" by simp
  have "sint (w + 1) = signed_take_bit (LENGTH(32) - 1) (sint w + sint (1::cint))"
    by (rule sint_word_ariths)
  also have "\<dots> = signed_take_bit 31 (sint w + 1)" by simp
  also have "\<dots> = sint w + 1"
    using ne ub lb by (intro signed_take_bit_int_eq_self) simp_all
  finally show ?thesis .
qed

subsection \<open>Encoding and decoding\<close>

lemma Book_from_to_json: "Book_from_json (Book_to_json b) = Inr b"
  by (cases b) (simp add: json_ops)

lemma Reader_from_to_json: "Reader_from_json (Reader_to_json r) = Inr r"
  by (cases r) (simp add: json_ops)

lemma Loan_from_to_json: "Loan_from_json (Loan_to_json l) = Inr l"
  by (cases l) (simp add: json_ops split: option.splits)

lemma push_all_roundtrip:
  "(\<And>x. conv (enc x) = Inr x) \<Longrightarrow> push_all conv (map enc xs) acc = (acc @ xs, None)"
  by (induction xs arbitrary: acc) simp_all

lemma read_into_roundtrip:
  "(\<And>x. conv (enc x) = Inr x) \<Longrightarrow>
   read_into conv (Document (JArray (map enc xs))) [] = (xs, None)"
  by (simp add: read_into_def json_items_def push_all_roundtrip)

subsection \<open>The availability invariant along a session\<close>

lemma consistent_sync: "consistent m \<Longrightarrow> availability_in_sync m"
  by (auto simp: consistent_def availability_in_sync_def has_active_loan_def active_loans_def
      list_all_iff list_ex_iff filter_empty_conv)

lemma consistent_empty: "consistent empty_manager"
  by (simp add: consistent_def empty_manager_def active_loans_def)

lemma consistentI:
  assumes "distinct (map ISBN (Books m))"
    and "\<And>x. length (active_loans x m) \<le> 1"
    and "\<And>x. active_loans x m \<noteq> [] \<Longrightarrow> x \<in> ISBN ` set (Books m)"
    and "\<And>b. b \<in> set (Books m) \<Longrightarrow> IsAvailable b \<longleftrightarrow> active_loans (ISBN b) m = []"
  shows "consistent m"
  using assms unfolding consistent_def by blast

lemma consistentD:
  assumes "consistent m"
  shows "distinct (map ISBN (Books m))"
    and "length (active_loans x m) \<le> 1"
    and "active_loans x m \<noteq> [] \<Longrightarrow> x \<in> ISBN ` set (Books m)"
    and "b \<in> set (Books m) \<Longrightarrow> IsAvailable b \<longleftrightarrow> active_loans (ISBN b) m = []"
  using assms unfolding consistent_def by blast+

lemma consistent_AddBook:
  assumes c: "consistent m" and a: "IsAvailable b"
  shows "consistent (snd (AddBook b m))"
proof (cases "FindBook (ISBN b) m")
  case (Some i)
  with c show ?thesis by (simp add: AddBook_def)
next
  case None
  then have fresh: "ISBN b \<notin> ISBN ` set (Books m)" by (simp add: FindBook_None_iff)
  have m': "snd (AddBook b m) = m\<lparr>Books := Books m @ [b]\<rparr>"
    using None by (simp add: AddBook_def)
  have act: "active_loans x (m\<lparr>Books := Books m @ [b]\<rparr>) = active_loans x m" for x
    by (simp add: active_loans_def)
  have none: "active_loans (ISBN b) m = []"
    using consistentD(3) [OF c, of "ISBN b"] fresh by blast
  show ?thesis
    unfolding m'
  proof (rule consistentI)
    show "distinct (map ISBN (Books (m\<lparr>Books := Books m @ [b]\<rparr>)))"
      using consistentD(1) [OF c] fresh by simp
    show "length (active_loans x (m\<lparr>Books := Books m @ [b]\<rparr>)) \<le> 1" for x
      using consistentD(2) [OF c, of x] by (simp add: act)
    show "x \<in> ISBN ` set (Books (m\<lparr>Books := Books m @ [b]\<rparr>))"
      if "active_loans x (m\<lparr>Books := Books m @ [b]\<rparr>) \<noteq> []" for x
      using consistentD(3) [OF c, of x] that by (simp add: act)
    show "IsAvailable b' \<longleftrightarrow> active_loans (ISBN b') (m\<lparr>Books := Books m @ [b]\<rparr>) = []"
      if "b' \<in> set (Books (m\<lparr>Books := Books m @ [b]\<rparr>))" for b'
    proof (cases "b' = b")
      case True
      with a none show ?thesis by (simp add: act)
    next
      case False
      with that have "b' \<in> set (Books m)" by simp
      from consistentD(4) [OF c this] show ?thesis by (simp add: act)
    qed
  qed
qed

lemma consistent_AddReader: "consistent m \<Longrightarrow> consistent (snd (AddReader r m))"
  by (simp add: AddReader_def consistent_def active_loans_def)

lemma set_erase_at: "i < length xs \<Longrightarrow> set xs = insert (xs ! i) (set (erase_at i xs))"
proof -
  assume "i < length xs"
  then have "xs = take i xs @ xs ! i # drop (Suc i) xs" by (rule id_take_nth_drop)
  then have "set xs = set (take i xs @ xs ! i # drop (Suc i) xs)" by simp
  then show ?thesis by (auto simp: erase_at_def)
qed

lemma distinct_map_erase_at: "distinct (map f xs) \<Longrightarrow> distinct (map f (erase_at i xs))"
proof (cases "i < length xs")
  case True
  assume d: "distinct (map f xs)"
  from True have "xs = take i xs @ xs ! i # drop (Suc i) xs" by (rule id_take_nth_drop)
  then have "map f xs = map f (take i xs) @ f (xs ! i) # map f (drop (Suc i) xs)"
    by (metis list.simps(9) map_append)
  with d have "distinct (map f (take i xs) @ f (xs ! i) # map f (drop (Suc i) xs))" by simp
  then show ?thesis by (auto simp: erase_at_def)
next
  case False
  assume "distinct (map f xs)"
  with False show ?thesis by (simp add: erase_at_def)
qed

lemma consistent_RemoveBook:
  assumes c: "consistent m"
  shows "consistent (snd (RemoveBook isbn m))"
proof (cases "fst (RemoveBook isbn m)")
  case False
  then have "snd (RemoveBook isbn m) = m"
    by (auto simp: RemoveBook_def split: option.splits if_splits)
  with c show ?thesis by simp
next
  case True
  then obtain i where i: "FindBook isbn m = Some i" and av: "IsAvailable (Books m ! i)"
    and m': "snd (RemoveBook isbn m) = m\<lparr>Books := erase_at i (Books m)\<rparr>"
    by (auto simp: RemoveBook_def FindBook_def split: option.splits if_splits)
  from FindBook_first [OF i] have ilen: "i < length (Books m)" and isbn: "ISBN (Books m ! i) = isbn"
    by simp_all
  have mem: "Books m ! i \<in> set (Books m)" using ilen by simp
  have none: "active_loans isbn m = []"
    using consistentD(4) [OF c mem] av isbn by simp
  have act: "active_loans x (m\<lparr>Books := erase_at i (Books m)\<rparr>) = active_loans x m" for x
    by (simp add: active_loans_def)
  have sub: "set (erase_at i (Books m)) \<subseteq> set (Books m)"
    using set_erase_at [OF ilen] by auto
  show ?thesis
    unfolding m'
  proof (rule consistentI)
    show "distinct (map ISBN (Books (m\<lparr>Books := erase_at i (Books m)\<rparr>)))"
      using consistentD(1) [OF c] by (simp add: distinct_map_erase_at)
    show "length (active_loans x (m\<lparr>Books := erase_at i (Books m)\<rparr>)) \<le> 1" for x
      using consistentD(2) [OF c, of x] by (simp add: act)
    show "x \<in> ISBN ` set (Books (m\<lparr>Books := erase_at i (Books m)\<rparr>))"
      if "active_loans x (m\<lparr>Books := erase_at i (Books m)\<rparr>) \<noteq> []" for x
    proof -
      from that have ne: "active_loans x m \<noteq> []" by (simp add: act)
      with none have "x \<noteq> isbn" by auto
      moreover from consistentD(3) [OF c ne] obtain b where "b \<in> set (Books m)" "ISBN b = x"
        by auto
      ultimately have "b \<in> set (erase_at i (Books m))"
        using set_erase_at [OF ilen] isbn by auto
      with \<open>ISBN b = x\<close> show ?thesis by auto
    qed
    show "IsAvailable b \<longleftrightarrow> active_loans (ISBN b) (m\<lparr>Books := erase_at i (Books m)\<rparr>) = []"
      if "b \<in> set (Books (m\<lparr>Books := erase_at i (Books m)\<rparr>))" for b
    proof -
      from that sub have "b \<in> set (Books m)" by auto
      from consistentD(4) [OF c this] show ?thesis by (simp add: act)
    qed
  qed
qed


lemma distinct_ISBN_index:
  assumes "distinct (map ISBN bs)" "i < length bs" "j < length bs" "ISBN (bs ! i) = ISBN (bs ! j)"
  shows "i = j"
proof -
  from assms(2-4) have "map ISBN bs ! i = map ISBN bs ! j" by simp
  moreover have "i < length (map ISBN bs)" "j < length (map ISBN bs)"
    using assms(2,3) by simp_all
  ultimately show ?thesis
    using nth_eq_iff_index_eq [OF assms(1), of i j] by blast
qed

lemma set_update_cases:
  assumes "b \<in> set (xs[i := y])"
  obtains "b = y" | j where "j < length xs" "j \<noteq> i" "b = xs ! j"
proof -
  from assms obtain j where j: "j < length (xs[i := y])" "xs[i := y] ! j = b"
    by (auto simp: in_set_conv_nth)
  show ?thesis
  proof (cases "j = i")
    case True
    with j have "b = y" by simp
    then show ?thesis by (rule that(1))
  next
    case False
    with j have "j < length xs" "j \<noteq> i" "b = xs ! j" by simp_all
    then show ?thesis by (rule that(2))
  qed
qed

lemma consistent_IssueLoan:
  assumes c: "consistent m"
  shows "consistent (snd (IssueLoan now isbn readerId m))"
proof (cases "fst (IssueLoan now isbn readerId m)")
  case False
  then have "snd (IssueLoan now isbn readerId m) = m"
    by (auto simp: IssueLoan_def split: option.splits if_splits)
  with c show ?thesis by simp
next
  case True
  define new where "new = \<lparr>BookISBN = isbn, ReaderId = readerId, LoanDate = now, ReturnDate = None\<rparr>"
  from True obtain i where i: "FindBook isbn m = Some i" and av: "IsAvailable (Books m ! i)"
    and m0: "snd (IssueLoan now isbn readerId m) =
       m\<lparr>Loans := Loans m @ [new], Books := (Books m)[i := MarkAsLoaned (Books m ! i)]\<rparr>"
    unfolding new_def by (rule IssueLoan_success)
  define bs' where "bs' = (Books m)[i := MarkAsLoaned (Books m ! i)]"
  have m': "snd (IssueLoan now isbn readerId m) = m\<lparr>Loans := Loans m @ [new], Books := bs'\<rparr>"
    by (simp add: m0 bs'_def)
  from FindBook_first [OF i] have ilen: "i < length (Books m)" and isbn: "ISBN (Books m ! i) = isbn"
    by simp_all
  have mem: "Books m ! i \<in> set (Books m)" using ilen by simp
  have none: "active_loans isbn m = []"
    using consistentD(4) [OF c mem] av isbn by simp
  have act: "active_loans x (m\<lparr>Loans := Loans m @ [new], Books := bs'\<rparr>) =
      active_loans x m @ (if x = isbn then [new] else [])" for x
    by (auto simp: active_loans_def new_def)
  have isbns: "map ISBN bs' = map ISBN (Books m)"
    using ilen by (simp add: bs'_def map_update MarkAsLoaned_def list_update_same_conv)
  then have img: "ISBN ` set bs' = ISBN ` set (Books m)"
    by (metis list.set_map)
  show ?thesis
    unfolding m'
  proof (rule consistentI)
    show "distinct (map ISBN (Books (m\<lparr>Loans := Loans m @ [new], Books := bs'\<rparr>)))"
      using consistentD(1) [OF c] by (simp add: isbns)
    show "length (active_loans x (m\<lparr>Loans := Loans m @ [new], Books := bs'\<rparr>)) \<le> 1" for x
      using consistentD(2) [OF c, of x] none by (simp add: act)
    show "x \<in> ISBN ` set (Books (m\<lparr>Loans := Loans m @ [new], Books := bs'\<rparr>))"
      if "active_loans x (m\<lparr>Loans := Loans m @ [new], Books := bs'\<rparr>) \<noteq> []" for x
    proof (cases "x = isbn")
      case True
      with mem isbn show ?thesis by (auto simp: img)
    next
      case False
      with that have "active_loans x m \<noteq> []" by (simp add: act)
      from consistentD(3) [OF c this] show ?thesis by (simp add: img)
    qed
    show "IsAvailable b \<longleftrightarrow> active_loans (ISBN b) (m\<lparr>Loans := Loans m @ [new], Books := bs'\<rparr>) = []"
      if "b \<in> set (Books (m\<lparr>Loans := Loans m @ [new], Books := bs'\<rparr>))" for b
    proof -
      from that have "b \<in> set ((Books m)[i := MarkAsLoaned (Books m ! i)])" by (simp add: bs'_def)
      then show ?thesis
      proof (cases rule: set_update_cases)
        case 1
        then show ?thesis using isbn by (simp add: act MarkAsLoaned_def)
      next
        case (2 j)
        have "ISBN b \<noteq> isbn"
        proof
          assume "ISBN b = isbn"
          with 2 isbn have "ISBN (Books m ! j) = ISBN (Books m ! i)" by simp
          from distinct_ISBN_index [OF consistentD(1) [OF c] 2(1) ilen this] 2(2)
          show False by simp
        qed
        moreover have "b \<in> set (Books m)" using 2 by simp
        from consistentD(4) [OF c this] have "IsAvailable b \<longleftrightarrow> active_loans (ISBN b) m = []" .
        ultimately show ?thesis by (simp add: act)
      qed
    qed
  qed
qed

lemma filter_update_drop:
  assumes "k < length ls" "\<not> P y"
  shows "filter P (ls[k := y]) = filter P (take k ls) @ filter P (drop (Suc k) ls)"
proof -
  from assms(1) have "ls[k := y] = take k ls @ y # drop (Suc k) ls"
    by (rule upd_conv_take_nth_drop)
  with assms(2) show ?thesis by simp
qed

lemma filter_split_at:
  assumes "k < length ls"
  shows "filter P ls = filter P (take k ls) @ filter P [ls ! k] @ filter P (drop (Suc k) ls)"
proof -
  from assms have "ls = take k ls @ ls ! k # drop (Suc k) ls" by (rule id_take_nth_drop)
  then have "filter P ls = filter P (take k ls @ ls ! k # drop (Suc k) ls)" by simp
  then show ?thesis by simp
qed

lemma consistent_ReturnBook:
  assumes c: "consistent m"
  shows "consistent (snd (ReturnBook now isbn readerId m))"
proof (cases "fst (ReturnBook now isbn readerId m)")
  case False
  then have "snd (ReturnBook now isbn readerId m) = m"
    by (auto simp: ReturnBook_def Let_def split: option.splits)
  with c show ?thesis by simp
next
  case True
  define A where "A = (\<lambda>l::Loan. BookISBN l = isbn \<and> ReaderId l = readerId \<and> ReturnDate l = None)"
  from True obtain k where k: "find_if A (Loans m) = Some k"
    by (auto simp: ReturnBook_def A_def split: option.splits)
  from find_if_Some_first [OF k] have klen: "k < length (Loans m)" and Ak: "A (Loans m ! k)"
    by simp_all
  define ls' where "ls' = (Loans m)[k := (Loans m ! k)\<lparr>ReturnDate := Some now\<rparr>]"
  have split_new: "filter (\<lambda>l. BookISBN l = x \<and> ReturnDate l = None) ls' =
      filter (\<lambda>l. BookISBN l = x \<and> ReturnDate l = None) (take k (Loans m)) @
      filter (\<lambda>l. BookISBN l = x \<and> ReturnDate l = None) (drop (Suc k) (Loans m))" for x
    unfolding ls'_def using klen by (rule filter_update_drop) simp
  have split_old: "filter (\<lambda>l. BookISBN l = x \<and> ReturnDate l = None) (Loans m) =
      filter (\<lambda>l. BookISBN l = x \<and> ReturnDate l = None) (take k (Loans m)) @
      filter (\<lambda>l. BookISBN l = x \<and> ReturnDate l = None) [Loans m ! k] @
      filter (\<lambda>l. BookISBN l = x \<and> ReturnDate l = None) (drop (Suc k) (Loans m))" for x
    using klen by (rule filter_split_at)
  have other: "filter (\<lambda>l. BookISBN l = x \<and> ReturnDate l = None) ls' = active_loans x m"
    if "x \<noteq> isbn" for x
    using that Ak split_new [of x] split_old [of x] by (simp add: A_def active_loans_def)
  have was: "active_loans isbn m \<noteq> []"
    using Ak split_old [of isbn] by (simp add: A_def active_loans_def)
  have gone: "filter (\<lambda>l. BookISBN l = isbn \<and> ReturnDate l = None) ls' = []"
  proof -
    have "length (active_loans isbn m) =
        length (filter (\<lambda>l. BookISBN l = isbn \<and> ReturnDate l = None) ls') + 1"
      using Ak split_new [of isbn] split_old [of isbn] by (simp add: A_def active_loans_def)
    with consistentD(2) [OF c, of isbn] show ?thesis by simp
  qed
  from consistentD(3) [OF c was] have "FindBook isbn m \<noteq> None"
    by (simp add: FindBook_None_iff)
  then obtain i where i: "FindBook isbn m = Some i" by auto
  from FindBook_first [OF i] have ilen: "i < length (Books m)" and isbn: "ISBN (Books m ! i) = isbn"
    by simp_all
  define bs' where "bs' = (Books m)[i := MarkAsAvailable (Books m ! i)]"
  have m': "snd (ReturnBook now isbn readerId m) = m\<lparr>Loans := ls', Books := bs'\<rparr>"
    using k i by (simp add: ReturnBook_def A_def FindBook_def ls'_def bs'_def)
  have act_other: "active_loans x (m\<lparr>Loans := ls', Books := bs'\<rparr>) = active_loans x m"
    if "x \<noteq> isbn" for x
    using other [OF that] by (simp add: active_loans_def)
  have act_isbn: "active_loans isbn (m\<lparr>Loans := ls', Books := bs'\<rparr>) = []"
    using gone by (simp add: active_loans_def)
  have isbns: "map ISBN bs' = map ISBN (Books m)"
    using ilen by (simp add: bs'_def map_update MarkAsAvailable_def list_update_same_conv)
  then have img: "ISBN ` set bs' = ISBN ` set (Books m)"
    by (metis list.set_map)
  show ?thesis
    unfolding m'
  proof (rule consistentI)
    show "distinct (map ISBN (Books (m\<lparr>Loans := ls', Books := bs'\<rparr>)))"
      using consistentD(1) [OF c] by (simp add: isbns)
    show "length (active_loans x (m\<lparr>Loans := ls', Books := bs'\<rparr>)) \<le> 1" for x
    proof (cases "x = isbn")
      case True
      then show ?thesis by (simp add: act_isbn)
    next
      case False
      with consistentD(2) [OF c, of x] show ?thesis by (simp add: act_other)
    qed
    show "x \<in> ISBN ` set (Books (m\<lparr>Loans := ls', Books := bs'\<rparr>))"
      if "active_loans x (m\<lparr>Loans := ls', Books := bs'\<rparr>) \<noteq> []" for x
    proof -
      from that act_isbn have ne: "x \<noteq> isbn" by auto
      with that have "active_loans x m \<noteq> []" by (simp add: act_other)
      from consistentD(3) [OF c this] show ?thesis by (simp add: img)
    qed
    show "IsAvailable b \<longleftrightarrow> active_loans (ISBN b) (m\<lparr>Loans := ls', Books := bs'\<rparr>) = []"
      if "b \<in> set (Books (m\<lparr>Loans := ls', Books := bs'\<rparr>))" for b
    proof -
      from that have "b \<in> set ((Books m)[i := MarkAsAvailable (Books m ! i)])" by (simp add: bs'_def)
      then show ?thesis
      proof (cases rule: set_update_cases)
        case 1
        then show ?thesis using isbn act_isbn by (simp add: MarkAsAvailable_def)
      next
        case (2 j)
        have ne: "ISBN b \<noteq> isbn"
        proof
          assume "ISBN b = isbn"
          with 2 isbn have "ISBN (Books m ! j) = ISBN (Books m ! i)" by simp
          from distinct_ISBN_index [OF consistentD(1) [OF c] 2(1) ilen this] 2(2)
          show False by simp
        qed
        have "b \<in> set (Books m)" using 2 by simp
        from consistentD(4) [OF c this] have "IsAvailable b \<longleftrightarrow> active_loans (ISBN b) m = []" .
        with ne show ?thesis by (simp add: act_other)
      qed
    qed
  qed
qed

lemma consistent_step: "consistent m \<Longrightarrow> no_cascade c \<Longrightarrow> consistent (step c m)"
  by (cases c)
    (simp_all add: consistent_AddBook consistent_RemoveBook consistent_AddReader
      consistent_IssueLoan consistent_ReturnBook)

lemma consistent_run: "consistent m \<Longrightarrow> list_all no_cascade cs \<Longrightarrow> consistent (run cs m)"
  by (induction cs arbitrary: m) (simp_all add: consistent_step)

text \<open>
  A session without \<^verbatim>\<open>RemoveReader\<close>, started from the empty manager, ends in a state
  where every book is available exactly when it has no active loan.
\<close>

lemma sync_without_RemoveReader:
  "list_all no_cascade cs \<Longrightarrow> availability_in_sync (run cs empty_manager)"
  by (rule consistent_sync, rule consistent_run, rule consistent_empty)

text \<open>A books file that is not JSON leaves the manager empty: nothing was pushed before.\<close>

lemma Load_unparsable_books:
  "Load Unparsable readersFile loansFile m = Inr \<lparr>Books = [], Readers = [], Loans = []\<rparr>"
  by (cases m) (simp add: load_ops)

section \<open>The claims\<close>

text \<open>
  C1. The claim: in every state reached from the empty manager by the six operations, a
  book is available exactly when it has no active loan. The code at the scenario of the
  specification followed by \<^verbatim>\<open>RemoveReader\<close>: the three calls succeed and the invariant
  holds after the loan; \<^verbatim>\<open>RemoveReader(1)\<close> then erases the active loan and leaves the
  book marked as lent, so the book is unavailable with no active loan. Every other
  operation keeps the invariant (\<open>sync_without_RemoveReader\<close>).
\<close>

theorem RemoveReader_leaves_book_unavailable:
  "fst (AddBook dune empty_manager) \<and>
   fst (AddReader alice (snd (AddBook dune empty_manager))) \<and>
   fst (IssueLoan ''2026-01-01T00:00:00Z'' ''111'' 1
          (snd (AddReader alice (snd (AddBook dune empty_manager))))) \<and>
   availability_in_sync on_loan \<and>
   RemoveReader 1 on_loan =
     (True, \<lparr>Books = [dune\<lparr>IsAvailable := False\<rparr>], Readers = [], Loans = []\<rparr>) \<and>
   run [CmdAddBook dune, CmdAddReader alice, CmdIssueLoan ''2026-01-01T00:00:00Z'' ''111'' 1,
        CmdRemoveReader 1] empty_manager = snd (RemoveReader 1 on_loan) \<and>
   \<not> availability_in_sync (snd (RemoveReader 1 on_loan))"
  by (simp add: on_loan_def availability_in_sync_def has_active_loan_def ops)

text \<open>
  C2. The claim: after a parse error on any destination all three collections are
  empty. The code with a books file holding one book and a readers file that is not
  JSON: the exception is caught, nothing is cleared, and the book already pushed stays.
\<close>

theorem Load_keeps_books_after_parse_error:
  "Load (Document (JArray [Book_to_json dune])) Unparsable NoFile empty_manager =
     Inr \<lparr>Books = [dune], Readers = [], Loans = []\<rparr>"
  by (simp add: load_ops json_ops ops)

text \<open>
  C3, as amended. \<^verbatim>\<open>NextReaderId\<close> is 1 for an empty collection; whenever it returns,
  its value is the largest Id of the loop plus one, strictly above the Id of every reader
  in the collection, so it is never the Id of a reader that is present. Ids of removed
  readers are not remembered: the Id of a removed reader comes back once no remaining
  reader has an Id as large.
\<close>

theorem NextReaderId_fresh:
  "(Readers m = [] \<longrightarrow> NextReaderId m = Some 1) \<and>
   (\<forall>n. NextReaderId m = Some n \<longrightarrow>
        sint n = sint (max_id_loop 0 (Readers m)) + 1 \<and>
        (\<forall>r \<in> set (Readers m). sint (Id_r r) < sint n \<and> Id_r r \<noteq> n))"
proof (intro conjI impI allI)
  assume "Readers m = []"
  then show "NextReaderId m = Some 1" by (simp add: NextReaderId_def)
next
  fix n assume n: "NextReaderId m = Some n"
  define mx where "mx = max_id_loop 0 (Readers m)"
  from n have ne: "sint mx \<noteq> 2147483647" and nv: "n = mx + 1"
    by (auto simp: NextReaderId_def Let_def mx_def split: if_splits)
  show eq: "sint n = sint (max_id_loop 0 (Readers m)) + 1"
    using sint_succ [OF ne] nv by (simp add: mx_def)
  show "\<forall>r \<in> set (Readers m). sint (Id_r r) < sint n \<and> Id_r r \<noteq> n"
  proof
    fix r assume "r \<in> set (Readers m)"
    then have "sint (Id_r r) \<le> sint (max_id_loop 0 (Readers m))"
      by (rule max_id_loop_ge_all)
    with eq have "sint (Id_r r) < sint n" by simp
    then show "sint (Id_r r) < sint n \<and> Id_r r \<noteq> n" by auto
  qed
qed

theorem NextReaderId_fresh_witness:
  "Readers empty_manager = [] \<and> NextReaderId empty_manager = Some 1 \<and>
   NextReaderId \<lparr>Books = [], Readers = [alice], Loans = []\<rparr> = Some 2 \<and>
   sint (Id_r alice) < sint (2 :: cint) \<and> Id_r alice \<noteq> 2"
  using NextReaderId_fresh [of empty_manager]
    NextReaderId_fresh [of "\<lparr>Books = [], Readers = [alice], Loans = []\<rparr>"]
  by (simp add: NextReaderId_def ops)

text \<open>
  C3 as stated fails: the first reader gets Id 1 from \<^verbatim>\<open>NextReaderId\<close>, is added and
  removed, and \<^verbatim>\<open>NextReaderId\<close> returns 1 again.
\<close>

theorem NextReaderId_reuse_counterexample:
  "NextReaderId empty_manager = Some (Id_r alice) \<and>
   fst (AddReader alice empty_manager) \<and>
   fst (RemoveReader (Id_r alice) (snd (AddReader alice empty_manager))) \<and>
   NextReaderId (snd (RemoveReader (Id_r alice) (snd (AddReader alice empty_manager)))) =
     Some (Id_r alice)"
  by (simp add: NextReaderId_def ops)

text \<open>
  C4, as amended. In every state in which \<^verbatim>\<open>IssueLoan(isbn, readerId)\<close> succeeds, an
  immediate \<^verbatim>\<open>ReturnBook(isbn, readerId)\<close> succeeds, the book found for the ISBN is
  available again (the vector of books is the one before the loan), and the ISBN has
  exactly one more loan record with a return date than before the loan: exactly one when
  it had none. Earlier returned loans of the same ISBN stay in the history, so the count
  is not one in general.
\<close>

theorem Issue_then_Return:
  assumes ok: "fst (IssueLoan t1 isbn readerId m)"
  shows "fst (ReturnBook t2 isbn readerId (snd (IssueLoan t1 isbn readerId m))) \<and>
    (\<exists>i. FindBook isbn (snd (ReturnBook t2 isbn readerId (snd (IssueLoan t1 isbn readerId m)))) = Some i \<and>
         IsAvailable (Books (snd (ReturnBook t2 isbn readerId (snd (IssueLoan t1 isbn readerId m)))) ! i)) \<and>
    Books (snd (ReturnBook t2 isbn readerId (snd (IssueLoan t1 isbn readerId m)))) = Books m \<and>
    length (returned_for isbn (Loans (snd (ReturnBook t2 isbn readerId (snd (IssueLoan t1 isbn readerId m)))))) =
      Suc (length (returned_for isbn (Loans m))) \<and>
    (returned_for isbn (Loans m) = [] \<longrightarrow>
      length (returned_for isbn (Loans (snd (ReturnBook t2 isbn readerId (snd (IssueLoan t1 isbn readerId m)))))) = 1)"
proof -
  define new where "new = \<lparr>BookISBN = isbn, ReaderId = readerId, LoanDate = t1, ReturnDate = None\<rparr>"
  define A where "A = (\<lambda>l::Loan. BookISBN l = isbn \<and> ReaderId l = readerId \<and> ReturnDate l = None)"
  define Q where "Q = (\<lambda>l::Loan. BookISBN l = isbn \<and> ReturnDate l \<noteq> None)"
  from ok obtain i where i: "FindBook isbn m = Some i" "IsAvailable (Books m ! i)"
    and m1: "snd (IssueLoan t1 isbn readerId m) =
       m\<lparr>Loans := Loans m @ [new], Books := (Books m)[i := MarkAsLoaned (Books m ! i)]\<rparr>"
    unfolding new_def by (rule IssueLoan_success)
  define m1 where "m1 = snd (IssueLoan t1 isbn readerId m)"
  have L1: "Loans m1 = Loans m @ [new]" and B1: "Books m1 = (Books m)[i := MarkAsLoaned (Books m ! i)]"
    using m1 by (simp_all add: m1_def)
  have ilen: "i < length (Books m)"
    using find_if_Some_first [of "\<lambda>b. ISBN b = isbn" "Books m" i] i(1)
    by (simp add: FindBook_def)
  have "A new" by (simp add: A_def new_def)
  then have "\<exists>x \<in> set (Loans m1). A x" by (simp add: L1)
  then obtain k where k: "find_if A (Loans m1) = Some k"
    using find_if_exists [of "Loans m1" A] by auto
  from find_if_Some_first [OF k] have klen: "k < length (Loans m1)" and Ak: "A (Loans m1 ! k)"
    by simp_all
  define ls2 where "ls2 = (Loans m1)[k := (Loans m1 ! k)\<lparr>ReturnDate := Some t2\<rparr>]"
  have fb: "find_if (\<lambda>b. ISBN b = isbn) (Books m1) = Some i"
    using i(1) find_if_update_same [of "\<lambda>b. ISBN b = isbn" MarkAsLoaned "Books m" i]
    by (simp add: B1 FindBook_def MarkAsLoaned_def)
  have res: "ReturnBook t2 isbn readerId m1 =
      (True, m1\<lparr>Loans := ls2, Books := (Books m1)[i := MarkAsAvailable (Books m1 ! i)]\<rparr>)"
    using k fb by (simp add: ReturnBook_def A_def FindBook_def ls2_def)
  have restored: "(Books m1)[i := MarkAsAvailable (Books m1 ! i)] = Books m"
    using ilen i(2) by (simp add: B1 MarkAsAvailable_def MarkAsLoaned_def MarkAsAvailable_id)
  have "\<not> Q (Loans m1 ! k)" using Ak by (simp add: A_def Q_def)
  moreover have "Q ((Loans m1 ! k)\<lparr>ReturnDate := Some t2\<rparr>)" using Ak by (simp add: A_def Q_def)
  ultimately have "length (filter Q ls2) = Suc (length (filter Q (Loans m1)))"
    unfolding ls2_def using klen by (rule filter_update_gain [rotated 1])
  moreover have "filter Q (Loans m1) = filter Q (Loans m)"
    by (simp add: L1 Q_def new_def)
  ultimately have cnt: "length (returned_for isbn ls2) = Suc (length (returned_for isbn (Loans m)))"
    by (simp add: returned_for_def Q_def)
  have "FindBook isbn (snd (ReturnBook t2 isbn readerId m1)) = Some i"
    using i(1) by (simp add: res restored FindBook_def)
  moreover have "Books (snd (ReturnBook t2 isbn readerId m1)) = Books m"
    by (simp add: res restored)
  moreover have "Loans (snd (ReturnBook t2 isbn readerId m1)) = ls2"
    by (simp add: res)
  moreover have "fst (ReturnBook t2 isbn readerId m1)"
    by (simp add: res)
  ultimately show ?thesis
    using i(2) cnt unfolding m1_def by simp
qed

theorem Issue_then_Return_witness:
  "fst (IssueLoan ''t1'' ''111'' 1 (snd (AddReader alice (snd (AddBook dune empty_manager))))) \<and>
   fst (ReturnBook ''t2'' ''111'' 1 (snd (IssueLoan ''t1'' ''111'' 1
      (snd (AddReader alice (snd (AddBook dune empty_manager))))))) \<and>
   length (returned_for ''111'' (Loans (snd (ReturnBook ''t2'' ''111'' 1 (snd (IssueLoan ''t1'' ''111'' 1
      (snd (AddReader alice (snd (AddBook dune empty_manager)))))))))) = 1"
  using Issue_then_Return [of "''t1''" "''111''" 1
      "snd (AddReader alice (snd (AddBook dune empty_manager)))" "''t2''"]
  by (simp add: ops)

text \<open>
  C4 as stated fails: in the state of the scenario after one loan and its return, a
  second loan and return succeed and leave two loan records of the ISBN with a return
  date, not one.
\<close>

theorem Issue_then_Return_one_record_counterexample:
  "fst (IssueLoan ''t3'' ''111'' 1 with_history) \<and>
   fst (ReturnBook ''t4'' ''111'' 1 (snd (IssueLoan ''t3'' ''111'' 1 with_history))) \<and>
   length (returned_for ''111''
     (Loans (snd (ReturnBook ''t4'' ''111'' 1 (snd (IssueLoan ''t3'' ''111'' 1 with_history)))))) = 2 \<and>
   length (returned_for ''111''
     (Loans (snd (ReturnBook ''t4'' ''111'' 1 (snd (IssueLoan ''t3'' ''111'' 1 with_history)))))) \<noteq> 1"
  by (simp add: with_history_def on_loan_def ops)

text \<open>
  C5, as amended. \<^verbatim>\<open>AddBook\<close> fails and leaves the manager unchanged whenever a book
  with the same ISBN exists; otherwise it succeeds and appends the book as it was passed:
  the new entry's \<^verbatim>\<open>IsAvailable\<close> is the flag of the argument, which is true for a
  default-constructed \<^verbatim>\<open>Book\<close>.
\<close>

theorem AddBook_appends_as_given:
  "(FindBook (ISBN b) m \<noteq> None \<longrightarrow> AddBook b m = (False, m)) \<and>
   (FindBook (ISBN b) m = None \<longrightarrow>
      AddBook b m = (True, m\<lparr>Books := Books m @ [b]\<rparr>) \<and>
      IsAvailable (last (Books (snd (AddBook b m)))) = IsAvailable b)"
  by (simp add: AddBook_def)

theorem AddBook_appends_as_given_witness:
  "FindBook (ISBN dune) empty_manager = None \<and>
   AddBook dune empty_manager = (True, \<lparr>Books = [dune], Readers = [], Loans = []\<rparr>) \<and>
   IsAvailable (last (Books (snd (AddBook dune empty_manager)))) \<and>
   FindBook (ISBN dune) \<lparr>Books = [dune], Readers = [], Loans = []\<rparr> \<noteq> None \<and>
   AddBook dune \<lparr>Books = [dune], Readers = [], Loans = []\<rparr> =
     (False, \<lparr>Books = [dune], Readers = [], Loans = []\<rparr>)"
  using AddBook_appends_as_given [of dune empty_manager]
    AddBook_appends_as_given [of dune "\<lparr>Books = [dune], Readers = [], Loans = []\<rparr>"]
  by (simp add: FindBook_def empty_manager_def dune_def)

text \<open>
  C5 as stated fails: a book passed with \<^verbatim>\<open>IsAvailable = false\<close> and a new ISBN is
  appended, and the entry appended is not available.
\<close>

theorem AddBook_forces_available_counterexample:
  "FindBook (ISBN (dune\<lparr>IsAvailable := False\<rparr>)) empty_manager = None \<and>
   fst (AddBook (dune\<lparr>IsAvailable := False\<rparr>) empty_manager) \<and>
   \<not> IsAvailable (last (Books (snd (AddBook (dune\<lparr>IsAvailable := False\<rparr>) empty_manager))))"
  by (simp add: AddBook_def FindBook_def empty_manager_def dune_def)

text \<open>
  C6. \<^verbatim>\<open>IssueLoan(isbn, readerId)\<close> fails exactly when no book has the ISBN, or the
  book found is not available (whoever the reader is), or no reader has the Id; a failed
  call changes nothing. On success it appends one loan with the ISBN, the reader Id, the
  clock's time as \<^verbatim>\<open>LoanDate\<close> and no \<^verbatim>\<open>ReturnDate\<close>, and sets the \<^verbatim>\<open>IsAvailable\<close>
  flag of the book found to false.
\<close>

theorem IssueLoan_spec:
  "(\<not> fst (IssueLoan now isbn readerId m) \<longleftrightarrow>
      FindBook isbn m = None \<or>
      (\<exists>i. FindBook isbn m = Some i \<and> \<not> IsAvailable (Books m ! i)) \<or>
      FindReader readerId m = None) \<and>
   (\<not> fst (IssueLoan now isbn readerId m) \<longrightarrow> snd (IssueLoan now isbn readerId m) = m) \<and>
   (fst (IssueLoan now isbn readerId m) \<longrightarrow>
      (\<exists>i. FindBook isbn m = Some i \<and>
           snd (IssueLoan now isbn readerId m) =
             m\<lparr>Loans := Loans m @
                   [\<lparr>BookISBN = isbn, ReaderId = readerId, LoanDate = now, ReturnDate = None\<rparr>],
               Books := (Books m)[i := (Books m ! i)\<lparr>IsAvailable := False\<rparr>]\<rparr>))"
  by (auto simp: IssueLoan_def MarkAsLoaned_def split: option.splits)

theorem IssueLoan_spec_witness:
  "fst (IssueLoan ''t1'' ''111'' 1 \<lparr>Books = [dune], Readers = [alice], Loans = []\<rparr>) \<and>
   snd (IssueLoan ''t1'' ''111'' 1 \<lparr>Books = [dune], Readers = [alice], Loans = []\<rparr>) =
     \<lparr>Books = [dune\<lparr>IsAvailable := False\<rparr>], Readers = [alice],
      Loans = [\<lparr>BookISBN = ''111'', ReaderId = 1, LoanDate = ''t1'', ReturnDate = None\<rparr>]\<rparr> \<and>
   \<not> fst (IssueLoan ''t1'' ''111'' 2
           \<lparr>Books = [dune\<lparr>IsAvailable := False\<rparr>], Readers = [alice], Loans = []\<rparr>) \<and>
   snd (IssueLoan ''t1'' ''111'' 2
           \<lparr>Books = [dune\<lparr>IsAvailable := False\<rparr>], Readers = [alice], Loans = []\<rparr>) =
     \<lparr>Books = [dune\<lparr>IsAvailable := False\<rparr>], Readers = [alice], Loans = []\<rparr>"
  using IssueLoan_spec [of "''t1''" "''111''" 1 "\<lparr>Books = [dune], Readers = [alice], Loans = []\<rparr>"]
    IssueLoan_spec [of "''t1''" "''111''" 2
      "\<lparr>Books = [dune\<lparr>IsAvailable := False\<rparr>], Readers = [alice], Loans = []\<rparr>"]
  by (simp add: ops)

text \<open>
  C7. \<^verbatim>\<open>RemoveReader(id)\<close> fails and changes nothing when no reader has the Id.
  Otherwise it succeeds; the loans afterwards are the loans before without those of the
  reader that have no return date, in the same order, so every other loan (the reader's
  returned loans among them) is untouched; the reader found is erased; the books are
  unchanged.
\<close>

theorem RemoveReader_spec:
  "(FindReader rid m = None \<longrightarrow> RemoveReader rid m = (False, m)) \<and>
   (\<forall>i. FindReader rid m = Some i \<longrightarrow>
        fst (RemoveReader rid m) \<and>
        Loans (snd (RemoveReader rid m)) =
          filter (\<lambda>l. \<not> (ReaderId l = rid \<and> ReturnDate l = None)) (Loans m) \<and>
        Readers (snd (RemoveReader rid m)) = erase_at i (Readers m) \<and>
        Books (snd (RemoveReader rid m)) = Books m)"
  by (simp add: RemoveReader_def FindReader_def erase_active_loans_filter)

theorem RemoveReader_spec_witness:
  "FindReader 2 \<lparr>Books = [], Readers = [alice], Loans = []\<rparr> = None \<and>
   RemoveReader 2 \<lparr>Books = [], Readers = [alice], Loans = []\<rparr> =
     (False, \<lparr>Books = [], Readers = [alice], Loans = []\<rparr>) \<and>
   FindReader 1 shelf = Some 0 \<and>
   RemoveReader 1 shelf =
     (True, \<lparr>Books = [dune\<lparr>IsAvailable := False\<rparr>], Readers = [],
      Loans = [\<lparr>BookISBN = ''111'', ReaderId = 1, LoanDate = ''2026-01-01T00:00:00Z'',
                ReturnDate = Some ''2026-01-02T00:00:00Z''\<rparr>]\<rparr>)"
  using RemoveReader_spec [of 2 "\<lparr>Books = [], Readers = [alice], Loans = []\<rparr>"]
    RemoveReader_spec [of 1 shelf]
  by (simp add: shelf_def ops)

text \<open>
  C8. \<^verbatim>\<open>RemoveBook(isbn)\<close> fails, changing nothing, whenever no book has the ISBN or
  the book found is not available. Otherwise it succeeds, erases that one entry (the
  vector is one shorter) and leaves the loans and the readers as they were.
\<close>

theorem RemoveBook_spec:
  "(FindBook isbn m = None \<longrightarrow> RemoveBook isbn m = (False, m)) \<and>
   (\<forall>i. FindBook isbn m = Some i \<and> \<not> IsAvailable (Books m ! i) \<longrightarrow>
        RemoveBook isbn m = (False, m)) \<and>
   (\<forall>i. FindBook isbn m = Some i \<and> IsAvailable (Books m ! i) \<longrightarrow>
        fst (RemoveBook isbn m) \<and>
        Books (snd (RemoveBook isbn m)) = erase_at i (Books m) \<and>
        Suc (length (Books (snd (RemoveBook isbn m)))) = length (Books m) \<and>
        Loans (snd (RemoveBook isbn m)) = Loans m \<and>
        Readers (snd (RemoveBook isbn m)) = Readers m)"
  by (auto simp: RemoveBook_def FindBook_def length_erase_at dest: find_if_Some_first)

theorem RemoveBook_spec_witness:
  "FindBook ''222'' \<lparr>Books = [dune], Readers = [], Loans = []\<rparr> = None \<and>
   RemoveBook ''222'' \<lparr>Books = [dune], Readers = [], Loans = []\<rparr> =
     (False, \<lparr>Books = [dune], Readers = [], Loans = []\<rparr>) \<and>
   FindBook ''111'' \<lparr>Books = [dune\<lparr>IsAvailable := False\<rparr>], Readers = [], Loans = []\<rparr> = Some 0 \<and>
   RemoveBook ''111'' \<lparr>Books = [dune\<lparr>IsAvailable := False\<rparr>], Readers = [], Loans = []\<rparr> =
     (False, \<lparr>Books = [dune\<lparr>IsAvailable := False\<rparr>], Readers = [], Loans = []\<rparr>) \<and>
   FindBook ''111'' \<lparr>Books = [dune], Readers = [], Loans = []\<rparr> = Some 0 \<and>
   RemoveBook ''111'' \<lparr>Books = [dune], Readers = [], Loans = []\<rparr> =
     (True, \<lparr>Books = [], Readers = [], Loans = []\<rparr>)"
  using RemoveBook_spec [of "''222''" "\<lparr>Books = [dune], Readers = [], Loans = []\<rparr>"]
    RemoveBook_spec [of "''111''"
      "\<lparr>Books = [dune\<lparr>IsAvailable := False\<rparr>], Readers = [], Loans = []\<rparr>"]
    RemoveBook_spec [of "''111''" "\<lparr>Books = [dune], Readers = [], Loans = []\<rparr>"]
  by (simp add: ops)

text \<open>
  C9. When the three destinations can be written, \<^verbatim>\<open>Save\<close> followed by \<^verbatim>\<open>Load\<close> on
  them gives back the manager that was saved: the same books, readers and loans with the
  same fields, in the same order, each loan active or returned as before. In the loans
  document every loan has the key \<^verbatim>\<open>ReturnDate\<close>, with the value \<^verbatim>\<open>null\<close> when the
  loan has no return date.
\<close>

theorem Save_then_Load:
  assumes "Save (True, True, True) m old = (f1, f2, f3)"
  shows "Load f1 f2 f3 m' = Inr m \<and>
     f3 = Document (JArray (map Loan_to_json (Loans m))) \<and>
     (\<forall>l \<in> set (Loans m). \<exists>kvs. Loan_to_json l = JObject kvs \<and>
        map_of kvs ''ReturnDate'' =
          Some (case ReturnDate l of None \<Rightarrow> JNull | Some d \<Rightarrow> JString d))"
proof -
  from assms have f: "f1 = Document (JArray (map Book_to_json (Books m)))"
    "f2 = Document (JArray (map Reader_to_json (Readers m)))"
    "f3 = Document (JArray (map Loan_to_json (Loans m)))"
    by (auto simp: Save_def write_file_def split: prod.splits)
  have "Load f1 f2 f3 m' = Inr (m'\<lparr>Books := Books m, Readers := Readers m, Loans := Loans m\<rparr>)"
    unfolding f Load_def
    by (simp add: read_into_roundtrip Book_from_to_json Reader_from_to_json Loan_from_to_json)
  moreover have "m'\<lparr>Books := Books m, Readers := Readers m, Loans := Loans m\<rparr> = m"
    by (cases m, cases m') simp
  moreover have "\<forall>l \<in> set (Loans m). \<exists>kvs. Loan_to_json l = JObject kvs \<and>
        map_of kvs ''ReturnDate'' =
          Some (case ReturnDate l of None \<Rightarrow> JNull | Some d \<Rightarrow> JString d)"
    by (simp add: Loan_to_json_def)
  ultimately show ?thesis using f(3) by simp
qed

theorem Save_then_Load_witness:
  "Save (True, True, True) shelf (NoFile, Unparsable, NoFile) =
     (Document (JArray (map Book_to_json (Books shelf))),
      Document (JArray (map Reader_to_json (Readers shelf))),
      Document (JArray (map Loan_to_json (Loans shelf)))) \<and>
   Load (Document (JArray (map Book_to_json (Books shelf))))
        (Document (JArray (map Reader_to_json (Readers shelf))))
        (Document (JArray (map Loan_to_json (Loans shelf)))) empty_manager = Inr shelf \<and>
   Loan_to_json (Loans shelf ! 1) =
     JObject [(''BookISBN'', JString ''111''), (''ReaderId'', JNumber 1),
              (''LoanDate'', JString ''2026-01-03T00:00:00Z''), (''ReturnDate'', JNull)]"
proof -
  have s: "Save (True, True, True) shelf (NoFile, Unparsable, NoFile) =
     (Document (JArray (map Book_to_json (Books shelf))),
      Document (JArray (map Reader_to_json (Readers shelf))),
      Document (JArray (map Loan_to_json (Loans shelf))))"
    by (simp add: Save_def write_file_def)
  have "Loan_to_json (Loans shelf ! 1) =
     JObject [(''BookISBN'', JString ''111''), (''ReaderId'', JNumber 1),
              (''LoanDate'', JString ''2026-01-03T00:00:00Z''), (''ReturnDate'', JNull)]"
    by (simp add: shelf_def Loan_to_json_def)
  with s Save_then_Load [OF s, of empty_manager] show ?thesis by simp
qed

text \<open>
  C10. \<^verbatim>\<open>Load\<close> checks no ISBN: a books file with two different entries of one ISBN
  loads into a manager holding both, while no run of \<^verbatim>\<open>AddBook\<close> calls from the empty
  manager gives two entries with one ISBN. In any state, \<^verbatim>\<open>RemoveBook\<close>, \<^verbatim>\<open>IssueLoan\<close>
  and the availability update of \<^verbatim>\<open>ReturnBook\<close> touch the first entry with the ISBN, in
  insertion order, and no other entry.
\<close>

theorem Load_duplicates_first_match:
  "(Load (Document (JArray [Book_to_json dune, Book_to_json emma])) NoFile NoFile m0 =
      Inr \<lparr>Books = [dune, emma], Readers = [], Loans = []\<rparr> \<and>
    ISBN dune = ISBN emma \<and> dune \<noteq> emma) \<and>
   (\<forall>bs. distinct (map ISBN (Books (AddBooks bs empty_manager)))) \<and>
   (fst (RemoveBook isbn m) \<longrightarrow>
      (\<exists>i. i < length (Books m) \<and> ISBN (Books m ! i) = isbn \<and>
           (\<forall>j < i. ISBN (Books m ! j) \<noteq> isbn) \<and>
           Books (snd (RemoveBook isbn m)) = erase_at i (Books m))) \<and>
   (fst (IssueLoan now isbn readerId m) \<longrightarrow>
      (\<exists>i. i < length (Books m) \<and> ISBN (Books m ! i) = isbn \<and>
           (\<forall>j < i. ISBN (Books m ! j) \<noteq> isbn) \<and>
           Books (snd (IssueLoan now isbn readerId m)) =
             (Books m)[i := (Books m ! i)\<lparr>IsAvailable := False\<rparr>])) \<and>
   (fst (ReturnBook now isbn readerId m) \<longrightarrow>
      (FindBook isbn m = None \<and> Books (snd (ReturnBook now isbn readerId m)) = Books m) \<or>
      (\<exists>i. i < length (Books m) \<and> ISBN (Books m ! i) = isbn \<and>
           (\<forall>j < i. ISBN (Books m ! j) \<noteq> isbn) \<and>
           Books (snd (ReturnBook now isbn readerId m)) =
             (Books m)[i := (Books m ! i)\<lparr>IsAvailable := True\<rparr>]))"
proof (intro conjI impI)
  show "Load (Document (JArray [Book_to_json dune, Book_to_json emma])) NoFile NoFile m0 =
      Inr \<lparr>Books = [dune, emma], Readers = [], Loans = []\<rparr>"
    by (simp add: load_ops json_ops dune_def emma_def)
  show "ISBN dune = ISBN emma" by (simp add: dune_def emma_def)
  show "dune \<noteq> emma" by (simp add: dune_def emma_def)
  show "\<forall>bs. distinct (map ISBN (Books (AddBooks bs empty_manager)))"
    by (simp add: AddBooks_distinct empty_manager_def)
next
  assume "fst (RemoveBook isbn m)"
  then obtain i where i: "FindBook isbn m = Some i"
    and r: "Books (snd (RemoveBook isbn m)) = erase_at i (Books m)"
    by (auto simp: RemoveBook_def FindBook_def split: option.splits if_splits)
  from FindBook_first [OF i] r
  show "\<exists>i. i < length (Books m) \<and> ISBN (Books m ! i) = isbn \<and>
           (\<forall>j < i. ISBN (Books m ! j) \<noteq> isbn) \<and>
           Books (snd (RemoveBook isbn m)) = erase_at i (Books m)"
    by blast
next
  assume "fst (IssueLoan now isbn readerId m)"
  then obtain i where i: "FindBook isbn m = Some i"
    and r: "snd (IssueLoan now isbn readerId m) =
       m\<lparr>Loans := Loans m @
             [\<lparr>BookISBN = isbn, ReaderId = readerId, LoanDate = now, ReturnDate = None\<rparr>],
         Books := (Books m)[i := MarkAsLoaned (Books m ! i)]\<rparr>"
    by (rule IssueLoan_success)
  from r have "Books (snd (IssueLoan now isbn readerId m)) =
             (Books m)[i := (Books m ! i)\<lparr>IsAvailable := False\<rparr>]"
    by (simp add: MarkAsLoaned_def)
  with FindBook_first [OF i]
  show "\<exists>i. i < length (Books m) \<and> ISBN (Books m ! i) = isbn \<and>
           (\<forall>j < i. ISBN (Books m ! j) \<noteq> isbn) \<and>
           Books (snd (IssueLoan now isbn readerId m)) =
             (Books m)[i := (Books m ! i)\<lparr>IsAvailable := False\<rparr>]"
    by blast
next
  assume ok: "fst (ReturnBook now isbn readerId m)"
  show "(FindBook isbn m = None \<and> Books (snd (ReturnBook now isbn readerId m)) = Books m) \<or>
      (\<exists>i. i < length (Books m) \<and> ISBN (Books m ! i) = isbn \<and>
           (\<forall>j < i. ISBN (Books m ! j) \<noteq> isbn) \<and>
           Books (snd (ReturnBook now isbn readerId m)) =
             (Books m)[i := (Books m ! i)\<lparr>IsAvailable := True\<rparr>])"
  proof (cases "FindBook isbn m")
    case None
    with ok show ?thesis
      by (auto simp: ReturnBook_def FindBook_def Let_def split: option.splits)
  next
    case (Some i)
    with ok have "Books (snd (ReturnBook now isbn readerId m)) =
             (Books m)[i := (Books m ! i)\<lparr>IsAvailable := True\<rparr>]"
      by (auto simp: ReturnBook_def FindBook_def Let_def MarkAsAvailable_def split: option.splits)
    with FindBook_first [OF Some] show ?thesis by blast
  qed
qed

theorem Load_duplicates_first_match_witness:
  "RemoveBook ''111'' twins = (True, \<lparr>Books = [emma], Readers = [alice], Loans = []\<rparr>) \<and>
   fst (IssueLoan ''t1'' ''111'' 1 twins) \<and>
   Books (snd (IssueLoan ''t1'' ''111'' 1 twins)) = [dune\<lparr>IsAvailable := False\<rparr>, emma] \<and>
   fst (ReturnBook ''t2'' ''111'' 1 (snd (IssueLoan ''t1'' ''111'' 1 twins))) \<and>
   Books (snd (ReturnBook ''t2'' ''111'' 1 (snd (IssueLoan ''t1'' ''111'' 1 twins)))) = [dune, emma] \<and>
   distinct (map ISBN (Books (AddBooks [dune, emma] empty_manager))) \<and>
   Books (AddBooks [dune, emma] empty_manager) = [dune]"
  using Load_duplicates_first_match [of empty_manager "''111''" twins "''t1''" 1]
    Load_duplicates_first_match [of empty_manager "''111''"
      "snd (IssueLoan ''t1'' ''111'' 1 twins)" "''t2''" 1]
  by (simp add: twins_def ops)

end
